theory Spec2Isabelle
  imports Complex_Main "HOL-Library.Multiset"
begin

section \<open>Data model\<close>

text \<open>
  The kernels of \<^verbatim>\<open>fatiando/gravmag/_tesseroid.pyx\<close> work on C doubles. The model
  uses the real numbers for them: \<^verbatim>\<open>sin\<close>, \<^verbatim>\<open>cos\<close>, \<^verbatim>\<open>sqrt\<close> and \<^verbatim>\<open>atan2\<close> are the
  mathematical functions and no operation rounds. Integer counters (\<^verbatim>\<open>queue_size\<close>,
  \<^verbatim>\<open>nlon\<close>, loop indices) stay far below the range of a C \<^verbatim>\<open>int\<close> and are natural
  numbers or integers.

  A tesseroid is the tuple \<^verbatim>\<open>w, e, s, n, top, bottom\<close> that the source unpacks; a row of
  the work queue has the same six columns.
\<close>

type_synonym tesseroid = "real \<times> real \<times> real \<times> real \<times> real \<times> real"

text \<open>The two \<^verbatim>\<open>ValueError\<close>s the module raises.\<close>

datatype error =
    DirectOnTesseroid   \<comment> \<open>\<^verbatim>\<open>ValueError("Can't calculate directly on the tesseroid")\<close>\<close>
  | QueueOverflow       \<comment> \<open>\<^verbatim>\<open>ValueError('Tesseroid queue overflow')\<close>\<close>

definition d2r :: real where
  "d2r = pi / 180"

definition nodes :: "real list" where
  "nodes = [- 0.577350269189625731058868041146, 0.577350269189625731058868041146]"


section \<open>Geometry and node scaling\<close>

text \<open>The local \<^verbatim>\<open>latc\<close> of \<^verbatim>\<open>scale_nodes\<close> at loop index \<open>i\<close>.\<close>

definition scale_latc :: "real \<Rightarrow> real \<Rightarrow> nat \<Rightarrow> real" where
  "scale_latc s n i = d2r * (0.5 * (n - s) * nodes ! i + 0.5 * (n + s))"

text \<open>
  \<^verbatim>\<open>scale_nodes\<close> fills the four caller buffers and returns the scale; the model returns
  the buffers \<^verbatim>\<open>lonc, sinlatc, coslatc, rc\<close> together with the scale.
\<close>

definition scale_nodes ::
  "real \<Rightarrow> real \<Rightarrow> real \<Rightarrow> real \<Rightarrow> real \<Rightarrow> real \<Rightarrow> real
    \<Rightarrow> real list \<times> real list \<times> real list \<times> real list \<times> real" where
  "scale_nodes R w e s n top' bottom =
     (let dlon = e - w;
          dlat = n - s;
          dr = top' - bottom;
          mlon = 0.5 * (e + w);
          mr = 0.5 * (top' + bottom + 2 * R);
          lonc = map (\<lambda>i. d2r * (0.5 * dlon * nodes ! i + mlon)) [0..<2];
          sinlatc = map (\<lambda>i. sin (scale_latc s n i)) [0..<2];
          coslatc = map (\<lambda>i. cos (scale_latc s n i)) [0..<2];
          rc = map (\<lambda>i. 0.5 * dr * nodes ! i + mr) [0..<2];
          scale = d2r * dlon * d2r * dlat * dr * 0.125
      in (lonc, sinlatc, coslatc, rc, scale))"

section \<open>Proximity classifier\<close>

text \<open>
  The squared straight-line distance that \<^verbatim>\<open>too_close\<close> computes for the observation
  point with index \<open>p\<close>, and the threshold \<^verbatim>\<open>value\<close> it is compared with. The coordinate
  arrays are lists; the source reads them without bounds checks, so an index is meant to
  be a position of the arrays.
\<close>

definition too_close_distance ::
  "real \<Rightarrow> tesseroid \<Rightarrow> real list \<Rightarrow> real list \<Rightarrow> real list \<Rightarrow> real list \<Rightarrow> nat \<Rightarrow> real" where
  "too_close_distance R t lon sinlat coslat radius p =
     (case t of (w, e, s, n, top', bottom) \<Rightarrow>
        let rt = top' + R;
            rt_sqr = rt ^ 2;
            latt = d2r * 0.5 * (s + n);
            sinlatt = sin latt;
            coslatt = cos latt;
            lont = d2r * 0.5 * (w + e);
            cospsi = sinlat ! p * sinlatt + coslat ! p * coslatt * cos (lon ! p - lont)
        in (radius ! p) ^ 2 + rt_sqr - 2 * radius ! p * rt * cospsi)"

definition too_close_size :: "real \<Rightarrow> tesseroid \<Rightarrow> real" where
  "too_close_size R t =
     (case t of (w, e, s, n, top', bottom) \<Rightarrow>
        max (R * d2r * (e - w)) (max (R * d2r * (n - s)) (top' - bottom)))"

definition too_close_value :: "real \<Rightarrow> tesseroid \<Rightarrow> real \<Rightarrow> real" where
  "too_close_value R t ratio = (too_close_size R t * ratio) ^ 2"

text \<open>
  The \<^verbatim>\<open>while i <= j\<close> loop. \<open>i\<close> and \<open>j\<close> are C ints (\<open>j\<close> starts at
  \<^verbatim>\<open>len(points) - 1\<close>, which is \<open>-1\<close> for an empty array). The index array is permuted in
  place; the model returns it with the boundary index.
\<close>

function too_close_loop ::
  "(nat \<Rightarrow> real) \<Rightarrow> real \<Rightarrow> int \<Rightarrow> int \<Rightarrow> nat list \<Rightarrow> error + (int \<times> nat list)" where
  "too_close_loop distance value i j points =
     (if i \<le> j then
        (let p = points ! nat i in
         if distance p < 1 / 10 ^ 20 then Inl DirectOnTesseroid
         else if distance p > value then too_close_loop distance value (i + 1) j points
         else too_close_loop distance value i (j - 1)
                (points[nat i := points ! nat j, nat j := p]))
      else Inr (i, points))"
  by pat_completeness auto
termination
  by (relation "measure (\<lambda>(distance, value, i, j, points). nat (j + 1 - i))") auto

definition too_close ::
  "real \<Rightarrow> tesseroid \<Rightarrow> real list \<Rightarrow> real list \<Rightarrow> real list \<Rightarrow> real list \<Rightarrow> real \<Rightarrow> nat list
    \<Rightarrow> error + (int \<times> nat list)" where
  "too_close R t lon sinlat coslat radius ratio points =
     too_close_loop (too_close_distance R t lon sinlat coslat radius)
       (too_close_value R t ratio) 0 (int (length points) - 1) points"

section \<open>Direct evaluation of the potential\<close>



section \<open>The vertical gradient kernel\<close>

type_synonym kernel_func =
  "real \<Rightarrow> real \<Rightarrow> real \<Rightarrow> real \<Rightarrow> real
    \<Rightarrow> real list \<Rightarrow> real list \<Rightarrow> real list \<Rightarrow> real list \<Rightarrow> real"

text \<open>
  \<^verbatim>\<open>l_sqr**2.5\<close> is the real power \<open>powr\<close>. Where \<^verbatim>\<open>l_sqr\<close> is zero the C code divides by
  zero; no statement below evaluates the kernel there.
\<close>

definition kernelzz :: kernel_func where
  "kernelzz lon sinlat coslat radius scale lonc sinlatc coslatc rc =
     (let r_sqr = radius ^ 2
      in foldl (\<lambda>result i.
           let coslon = cos (lon - lonc ! i) in
           foldl (\<lambda>result j.
             let cospsi = sinlat * sinlatc ! j + coslat * coslatc ! j * coslon in
             foldl (\<lambda>result k.
               let rc_sqr = (rc ! k) ^ 2;
                   l_sqr = r_sqr + rc_sqr - 2 * radius * rc ! k * cospsi;
                   l_5 = l_sqr powr 2.5;
                   kappa = rc_sqr * coslatc ! j;
                   deltaz = rc ! k * cospsi - radius
               in result + scale * kappa * (3 * deltaz ^ 2 - l_sqr) / l_5)
             result [0..<2])
           result [0..<2])
         0 [0..<2])"

section \<open>Distance and extents\<close>

text \<open>The C library's \<^verbatim>\<open>atan2(y, x)\<close> on the reals.\<close>

definition atan2 :: "real \<Rightarrow> real \<Rightarrow> real" where
  "atan2 y x =
     (if 0 < x then arctan (y / x)
      else if x < 0 then (if 0 \<le> y then arctan (y / x) + pi else arctan (y / x) - pi)
      else if 0 < y then pi / 2
      else if y < 0 then - (pi / 2)
      else 0)"

text \<open>
  The C library's \<^verbatim>\<open>sqrt\<close> of a negative number is NaN, and every comparison with NaN is
  false. The distance is therefore an optional real, \<open>None\<close> standing for NaN, and
  \<open>closer distance x\<close> is the C comparison \<^verbatim>\<open>distance < x\<close>. (The number under the root is
  not negative when \<^verbatim>\<open>sinlat\<close> and \<^verbatim>\<open>coslat\<close> are the sine and cosine of an angle.)
\<close>

definition sqrt_nan :: "real \<Rightarrow> real option" where
  "sqrt_nan x = (if x < 0 then None else Some (sqrt x))"

definition closer :: "real option \<Rightarrow> real \<Rightarrow> bool" where
  "closer distance x = (case distance of None \<Rightarrow> False | Some d \<Rightarrow> d < x)"

text \<open>
  \<^verbatim>\<open>distance_n_size\<close> returns the distance and writes the three extents through
  pointers; the model returns \<^verbatim>\<open>(distance, dlon, dlat, dr)\<close>.
\<close>

definition distance_n_size ::
  "real \<Rightarrow> real \<Rightarrow> real \<Rightarrow> real \<Rightarrow> real \<Rightarrow> real \<Rightarrow> real
    \<Rightarrow> real \<Rightarrow> real \<Rightarrow> real \<Rightarrow> real \<Rightarrow> real option \<times> real \<times> real \<times> real" where
  "distance_n_size R w e s n top' bottom lon sinlat coslat radius =
     (let rt = top' + R;
          lont = d2r * 0.5 * (w + e);
          latt = d2r * 0.5 * (s + n);
          sinlatt = sin latt;
          coslatt = cos latt;
          cospsi = sinlat * sinlatt + coslat * coslatt * cos (lon - lont);
          distance = sqrt_nan (radius ^ 2 + rt ^ 2 - 2 * radius * rt * cospsi);
          sinn = sin (d2r * n);
          cosn = cos (d2r * n);
          sins = sin (d2r * s);
          coss = cos (d2r * s);
          sindlon = sin (d2r * (e - w));
          cosdlon = cos (d2r * (e - w));
          dlon = R * atan2
                   (sqrt ((coslatt * sindlon) ^ 2
                          + (coslatt * sinlatt - sinlatt * coslatt * cosdlon) ^ 2))
                   (sinlatt ^ 2 + cosdlon * coslatt ^ 2);
          dlat = R * atan2 (coss * sinn - sins * cosn) (sins * sinn + coss * cosn);
          dr = top' - bottom
      in (distance, dlon, dlat, dr))"

section \<open>Adaptive refinement engine\<close>

definition queue_max :: nat where
  "queue_max = 10000"

text \<open>
  The work queue is a \<^verbatim>\<open>queue_max\<close> by 6 array used as a stack: rows \<open>0\<close> to
  \<^verbatim>\<open>queue_size - 1\<close> are live and the row \<^verbatim>\<open>queue_size - 1\<close> is popped next. The model keeps
  the live rows as a list in row order, so \<^verbatim>\<open>queue_size\<close> is its length, a pop takes the
  last element and a push appends. The source writes rows with bounds checks disabled: a
  row with index \<^verbatim>\<open>queue_max\<close> or more lies outside the array. The list keeps such rows, so
  that a length above \<^verbatim>\<open>queue_max\<close> stands for a write outside the array.

  \<open>res\<close> is the accumulator of the observation point being processed.
\<close>

record wstate =
  queue :: "tesseroid list"
  res :: real

text \<open>
  The rows written by the three \<^verbatim>\<open>xrange\<close> loops of the splitting branch, in the order
  they are written.
\<close>

definition children :: "tesseroid \<Rightarrow> nat \<Rightarrow> nat \<Rightarrow> nat \<Rightarrow> tesseroid list" where
  "children t nlon nlat nr =
     (case t of (w, e, s, n, top', bottom) \<Rightarrow>
        let dlon = (e - w) / real nlon;
            dlat = (n - s) / real nlat;
            dr = (top' - bottom) / real nr
        in concat (map (\<lambda>i.
             concat (map (\<lambda>j.
               map (\<lambda>k. (w + real i * dlon, w + (real i + 1) * dlon,
                         s + real j * dlat, s + (real j + 1) * dlat,
                         bottom + (real k + 1) * dr, bottom + real k * dr))
                 [0..<nr])
               [0..<nlat]))
             [0..<nlon]))"

text \<open>The numbers \<^verbatim>\<open>nlon, nlat, nr\<close> chosen for the row \<open>t\<close>.\<close>

definition divisions ::
  "real \<Rightarrow> real \<Rightarrow> real \<Rightarrow> real \<Rightarrow> real \<Rightarrow> real \<Rightarrow> tesseroid \<Rightarrow> nat \<times> nat \<times> nat" where
  "divisions R ratio lon sinlat coslat radius t =
     (case t of (w, e, s, n, top', bottom) \<Rightarrow>
        case distance_n_size R w e s n top' bottom lon sinlat coslat radius of
          (distance, dlon, dlat, dr) \<Rightarrow>
            (if closer distance (ratio * dlon) then 2 else 1,
             if closer distance (ratio * dlat) then 2 else 1,
             if closer distance (ratio * dr) then 2 else 1))"

text \<open>
  One iteration of \<^verbatim>\<open>while queue_size\<close>, for a state whose queue is not empty.
\<close>

definition step ::
  "real \<Rightarrow> kernel_func \<Rightarrow> real \<Rightarrow> real \<Rightarrow> real \<Rightarrow> real \<Rightarrow> real \<Rightarrow> wstate \<Rightarrow> error + wstate" where
  "step R kernel' ratio lon sinlat coslat radius st =
     (let queue_size = length (queue st) - 1;
          t = last (queue st);
          rest = butlast (queue st)
      in case t of (w, e, s, n, top', bottom) \<Rightarrow>
         case divisions R ratio lon sinlat coslat radius t of (nlon, nlat, nr) \<Rightarrow>
           if nlon = 1 \<and> nlat = 1 \<and> nr = 1 then
             (case scale_nodes R w e s n top' bottom of (lonc, sinlatc, coslatc, rc, scale) \<Rightarrow>
                Inr \<lparr>queue = rest,
                     res = res st + kernel' lon sinlat coslat radius scale lonc sinlatc coslatc rc\<rparr>)
           else if queue_size + nlon + nlat + nr > queue_max then Inl QueueOverflow
           else Inr \<lparr>queue = rest @ children t nlon nlat nr, res = res st\<rparr>)"

text \<open>
  The loop may run forever (nothing bounds the number of splits when the guard never
  fires), so it is a partial function: \<open>None\<close> stands for a loop that does not return.
  \<open>Some (Inl err)\<close> is the raised error, \<open>Some (Inr r)\<close> the final accumulator.
\<close>

partial_function (option) rediscretize_loop ::
  "real \<Rightarrow> kernel_func \<Rightarrow> real \<Rightarrow> real \<Rightarrow> real \<Rightarrow> real \<Rightarrow> real \<Rightarrow> wstate
    \<Rightarrow> (error + real) option" where
  "rediscretize_loop R kernel' ratio lon sinlat coslat radius st =
     (if queue st = [] then Some (Inr (res st))
      else case step R kernel' ratio lon sinlat coslat radius st of
             Inl err \<Rightarrow> Some (Inl err)
           | Inr st' \<Rightarrow> rediscretize_loop R kernel' ratio lon sinlat coslat radius st')"

text \<open>The first \<open>k\<close> iterations of the loop, for statements about the states it visits.\<close>

fun iterate ::
  "nat \<Rightarrow> real \<Rightarrow> kernel_func \<Rightarrow> real \<Rightarrow> real \<Rightarrow> real \<Rightarrow> real \<Rightarrow> real \<Rightarrow> wstate \<Rightarrow> error + wstate" where
  "iterate 0 R kernel' ratio lon sinlat coslat radius st = Inr st"
| "iterate (Suc k) R kernel' ratio lon sinlat coslat radius st =
     (if queue st = [] then Inr st
      else case step R kernel' ratio lon sinlat coslat radius st of
             Inl err \<Rightarrow> Inl err
           | Inr st' \<Rightarrow> iterate k R kernel' ratio lon sinlat coslat radius st')"

text \<open>
  The loop over the observation points. \<open>point l\<close> is the outcome of the inner loop for
  the point \<open>l\<close>. An error leaves the function at once; the result array, which the source
  updates in place, then holds what was written before. The outcome is the raised error,
  if any, with the result array.
\<close>

fun points_loop ::
  "(nat \<Rightarrow> (error + real) option) \<Rightarrow> real \<Rightarrow> real list \<Rightarrow> nat list
    \<Rightarrow> (error option \<times> real list) option" where
  "points_loop point density result [] = Some (None, result)"
| "points_loop point density result (l # ls) =
     (case point l of
        None \<Rightarrow> None
      | Some (Inl err) \<Rightarrow> Some (Some err, result)
      | Some (Inr r) \<Rightarrow> points_loop point density (result[l := result ! l + density * r]) ls)"

definition initial :: "tesseroid \<Rightarrow> wstate" where
  "initial t = \<lparr>queue = [t], res = 0\<rparr>"

definition with_rediscretization ::
  "real \<Rightarrow> tesseroid \<Rightarrow> real \<Rightarrow> real \<Rightarrow> real list \<Rightarrow> real list \<Rightarrow> real list \<Rightarrow> real list
    \<Rightarrow> real list \<Rightarrow> kernel_func \<Rightarrow> (error option \<times> real list) option" where
  "with_rediscretization R t density ratio lons sinlats coslats radii result kernel' =
     points_loop
       (\<lambda>l. rediscretize_loop R kernel' ratio (lons ! l) (sinlats ! l) (coslats ! l) (radii ! l)
              (initial t))
       density result [0..<length result]"

definition gzz ::
  "real \<Rightarrow> tesseroid \<Rightarrow> real \<Rightarrow> real \<Rightarrow> real list \<Rightarrow> real list \<Rightarrow> real list \<Rightarrow> real list
    \<Rightarrow> real list \<Rightarrow> (error option \<times> real list) option" where
  "gzz R t density ratio lons sinlats coslats radii result =
     with_rediscretization R t density ratio lons sinlats coslats radii result kernelzz"

section \<open>Notions for statements about runs of the engine\<close>



text \<open>
  When a row is split along all three axes, the row written last is its north, east, top
  octant, and that row is popped next. \<open>corner t m\<close> is the row reached from \<open>t\<close> after
  \<open>m\<close> such splits, and \<open>corner_rows t m0 M\<close> are the rows below it that \<open>M\<close> splits
  starting at depth \<open>m0\<close> leave on the queue.
\<close>

definition corner :: "tesseroid \<Rightarrow> nat \<Rightarrow> tesseroid" where
  "corner t m = (case t of (w, e, s, n, top', bottom) \<Rightarrow>
     (e - (e - w) / 2 ^ m, e, n - (n - s) / 2 ^ m, n, top', top' - (top' - bottom) / 2 ^ m))"


section \<open>Properties of node scaling\<close>

lemma d2r_pos: "0 < d2r"
  by (simp add: d2r_def)






section \<open>Properties of the proximity classifier\<close>


lemma too_close_loop_partition:
  assumes "0 \<le> i" "i \<le> j + 1" "j < int (length points)"
      and "\<forall>k. k < nat i \<longrightarrow> distance (points ! k) > value"
      and "\<forall>k. nat (j + 1) \<le> k \<and> k < length points \<longrightarrow> \<not> distance (points ! k) > value"
      and "too_close_loop distance value i j points = Inr (b, ps)"
  shows "mset ps = mset points \<and> 0 \<le> b \<and> b \<le> int (length points)
       \<and> (\<forall>k. k < nat b \<longrightarrow> distance (ps ! k) > value)
       \<and> (\<forall>k. nat b \<le> k \<and> k < length ps \<longrightarrow> \<not> distance (ps ! k) > value)"
  using assms
proof (induction distance "value" i j points rule: too_close_loop.induct)
  case (1 distance "value" i j points)
  show ?case
  proof (cases "i \<le> j")
    case False
    with "1.prems"(2) have ij: "i = j + 1" by simp
    from False "1.prems"(6) have "b = i" "ps = points"
      by (subst (asm) too_close_loop.simps, simp)+
    with "1.prems" ij show ?thesis by simp
  next
    case ij: True
    define p where "p = points ! nat i"
    have notdeg: "\<not> distance p < 1 / 10 ^ 20"
      using "1.prems"(6) ij by (subst (asm) too_close_loop.simps) (auto simp: p_def Let_def)
    show ?thesis
    proof (cases "distance p > value")
      case True
      have eq: "too_close_loop distance value (i + 1) j points = Inr (b, ps)"
        using "1.prems"(6) ij notdeg True
        by (subst (asm) too_close_loop.simps) (simp add: p_def)
      have pre: "\<forall>k. k < nat (i + 1) \<longrightarrow> distance (points ! k) > value"
      proof (intro allI impI)
        fix k assume "k < nat (i + 1)"
        with "1.prems"(1) have "k < nat i \<or> k = nat i" by linarith
        with "1.prems"(4) True p_def show "distance (points ! k) > value" by auto
      qed
      show ?thesis
        using "1.IH"(1)[OF ij p_def _ _ _ _ _ pre "1.prems"(5) eq]
              notdeg True "1.prems" ij p_def by simp
    next
      case notfar: False
      define points' where "points' = points[nat i := points ! nat j, nat j := p]"
      have eq: "too_close_loop distance value i (j - 1) points' = Inr (b, ps)"
        using "1.prems"(6) ij notdeg notfar
        by (subst (asm) too_close_loop.simps) (simp add: p_def points'_def Let_def)
      have len: "length points' = length points" by (simp add: points'_def)
      have ms: "mset points' = mset points"
        unfolding points'_def p_def
        using "1.prems"(1,3) ij by (intro mset_swap) auto
      have pre1: "\<forall>k. k < nat i \<longrightarrow> distance (points' ! k) > value"
      proof (intro allI impI)
        fix k assume k: "k < nat i"
        with ij "1.prems"(1) have "k \<noteq> nat i" "k \<noteq> nat j" by linarith+
        then have "points' ! k = points ! k" by (simp add: points'_def)
        with "1.prems"(4) k show "distance (points' ! k) > value" by simp
      qed
      have pre2: "\<forall>k. nat (j - 1 + 1) \<le> k \<and> k < length points' \<longrightarrow> \<not> distance (points' ! k) > value"
      proof (intro allI impI)
        fix k assume k: "nat (j - 1 + 1) \<le> k \<and> k < length points'"
        show "\<not> distance (points' ! k) > value"
        proof (cases "k = nat j")
          case True
          with k len have "points' ! k = p" by (simp add: points'_def)
          with notfar show ?thesis by simp
        next
          case False
          with k ij "1.prems"(1) have "k \<noteq> nat i" "nat (j + 1) \<le> k" by linarith+
          with False have "points' ! k = points ! k" by (simp add: points'_def)
          with "1.prems"(5) k len \<open>nat (j + 1) \<le> k\<close> show ?thesis by simp
        qed
      qed
      have "mset ps = mset points' \<and> 0 \<le> b \<and> b \<le> int (length points')
       \<and> (\<forall>k. k < nat b \<longrightarrow> distance (ps ! k) > value)
       \<and> (\<forall>k. nat b \<le> k \<and> k < length ps \<longrightarrow> \<not> distance (ps ! k) > value)"
        using "1.IH"(2)[OF ij p_def _ _ _ _ _ pre1[unfolded points'_def] pre2[unfolded points'_def]
                eq[unfolded points'_def]]
              notdeg notfar "1.prems"(1,2,3) ij p_def len points'_def by simp
      with ms len show ?thesis by simp
    qed
  qed
qed







lemma too_close_partition:
  assumes "too_close R t lon sinlat coslat radius ratio points = Inr (i, ps)"
  shows "mset ps = mset points \<and> 0 \<le> i \<and> i \<le> int (length points)
       \<and> (\<forall>p\<in>set (take (nat i) ps).
             too_close_distance R t lon sinlat coslat radius p > too_close_value R t ratio)
       \<and> (\<forall>p\<in>set (drop (nat i) ps).
             too_close_distance R t lon sinlat coslat radius p \<le> too_close_value R t ratio)"
proof -
  let ?d = "too_close_distance R t lon sinlat coslat radius"
  let ?v = "too_close_value R t ratio"
  have *: "mset ps = mset points \<and> 0 \<le> i \<and> i \<le> int (length points)
       \<and> (\<forall>k. k < nat i \<longrightarrow> ?d (ps ! k) > ?v)
       \<and> (\<forall>k. nat i \<le> k \<and> k < length ps \<longrightarrow> \<not> ?d (ps ! k) > ?v)"
    by (rule too_close_loop_partition[OF _ _ _ _ _ assms[unfolded too_close_def]]) simp_all
  then have A: "\<And>k. k < nat i \<Longrightarrow> ?d (ps ! k) > ?v"
    and B: "\<And>k. nat i \<le> k \<Longrightarrow> k < length ps \<Longrightarrow> \<not> ?d (ps ! k) > ?v"
    and C: "mset ps = mset points \<and> 0 \<le> i \<and> i \<le> int (length points)"
    by simp_all
  have far: "?d p > ?v" if "p \<in> set (take (nat i) ps)" for p
  proof -
    from that obtain k where "k < length (take (nat i) ps)" "take (nat i) ps ! k = p"
      unfolding in_set_conv_nth by blast
    then have "k < nat i" "ps ! k = p" by simp_all
    with A[of k] show ?thesis by simp
  qed
  have close: "?d p \<le> ?v" if "p \<in> set (drop (nat i) ps)" for p
  proof -
    from that obtain k where k: "k < length (drop (nat i) ps)" "drop (nat i) ps ! k = p"
      unfolding in_set_conv_nth by blast
    then have "nat i \<le> nat i + k" "nat i + k < length ps" "ps ! (nat i + k) = p" by simp_all
    with B[of "nat i + k"] show ?thesis by simp
  qed
  from C far close show ?thesis by simp
qed

lemma size_column: "too_close_size 6378137 (- 0.0005, 0.0005, - 0.0005, 0.0005, 0, - 1000) = 1000"
proof -
  have "6378137 * d2r * (0.0005 - (- 0.0005)) \<le> (1000::real)"
    using pi_less_4 by (simp add: d2r_def)
  then show ?thesis
    by (simp add: too_close_size_def max_def)
qed

lemma too_close_loop_single_close:
  assumes "\<not> distance p < 1 / 10 ^ 20" "\<not> distance p > value"
  shows "too_close_loop distance value 0 0 [p] = Inr (0, [p])"
proof -
  have "too_close_loop distance value 0 0 [p] = too_close_loop distance value 0 (- 1) [p]"
    using assms by (subst too_close_loop.simps) (simp add: Let_def)
  also have "\<dots> = Inr (0, [p])"
    by (subst too_close_loop.simps) simp
  finally show ?thesis .
qed


text \<open>
  C2, at a concrete input. A column of 0.001 by 0.001 degrees and 1000 m height at
  longitude and latitude zero, the observation point 2000 m above the centre of its top,
  \<^verbatim>\<open>ratio = 2\<close>: the squared distance is \<^verbatim>\<open>2000**2\<close> and the threshold is
  \<^verbatim>\<open>(1000*2)**2\<close>. \<^verbatim>\<open>too_close\<close> returns the boundary 0, so the point is in the suffix
  \<^verbatim>\<open>points[0:]\<close> of the points to divide, although its squared distance is not below the
  threshold.
\<close>

theorem too_close_boundary_in_suffix:
  "too_close 6378137 (- 0.0005, 0.0005, - 0.0005, 0.0005, 0, - 1000)
      [0] [0] [1] [6380137] 2 [0] = Inr (0, [0])
   \<and> \<not> too_close_distance 6378137 (- 0.0005, 0.0005, - 0.0005, 0.0005, 0, - 1000)
          [0] [0] [1] [6380137] 0
        < too_close_value 6378137 (- 0.0005, 0.0005, - 0.0005, 0.0005, 0, - 1000) 2"
proof -
  let ?t = "(- 0.0005, 0.0005, - 0.0005, 0.0005, 0, - 1000) :: tesseroid"
  have d: "too_close_distance 6378137 ?t [0] [0] [1] [6380137] 0 = 4000000"
    by (simp add: too_close_distance_def Let_def)
  have v: "too_close_value 6378137 ?t 2 = 4000000"
    unfolding too_close_value_def size_column by simp
  have "too_close 6378137 ?t [0] [0] [1] [6380137] 2 [0] = Inr (0, [0])"
    unfolding too_close_def
    using too_close_loop_single_close[of "too_close_distance 6378137 ?t [0] [0] [1] [6380137]" 0
            "too_close_value 6378137 ?t 2"]
    by (simp only: d v) simp
  with d v show ?thesis by simp
qed

section \<open>Properties of one iteration\<close>


lemma step_evaluate:
  assumes "queue st = rest @ [(w, e, s, n, top', bottom)]"
      and "divisions R ratio lon sinlat coslat radius (w, e, s, n, top', bottom) = (1, 1, 1)"
      and "scale_nodes R w e s n top' bottom = (lonc, sinlatc, coslatc, rc, scale)"
  shows "step R kernel' ratio lon sinlat coslat radius st
         = Inr \<lparr>queue = rest,
                res = res st + kernel' lon sinlat coslat radius scale lonc sinlatc coslatc rc\<rparr>"
  using assms by (simp add: step_def)


lemma step_split:
  assumes "queue st = rest @ [t]"
      and "divisions R ratio lon sinlat coslat radius t = (nlon, nlat, nr)"
      and "\<not> (nlon = 1 \<and> nlat = 1 \<and> nr = 1)"
      and "\<not> length rest + nlon + nlat + nr > queue_max"
  shows "step R kernel' ratio lon sinlat coslat radius st
         = Inr \<lparr>queue = rest @ children t nlon nlat nr, res = res st\<rparr>"
  using assms by (cases t) (auto simp: step_def split: prod.splits)

lemma length_concat_const:
  "(\<And>x. x \<in> set xs \<Longrightarrow> length (f x) = c) \<Longrightarrow> length (concat (map f xs)) = length xs * c"
  by (induction xs) simp_all

lemma length_children: "length (children t nlon nlat nr) = nlon * nlat * nr"
  by (cases t) (simp add: children_def Let_def length_concat_const)




section \<open>The loop and the loop over the points\<close>

lemma loop_iterate:
  "iterate k R kernel' ratio lon sinlat coslat radius st = Inr st' \<Longrightarrow>
     rediscretize_loop R kernel' ratio lon sinlat coslat radius st
     = rediscretize_loop R kernel' ratio lon sinlat coslat radius st'"
proof (induction k arbitrary: st)
  case 0
  then show ?case by simp
next
  case (Suc k)
  show ?case
  proof (cases "queue st = []")
    case True
    with Suc.prems show ?thesis by simp
  next
    case False
    with Suc.prems obtain st1 where
      s1: "step R kernel' ratio lon sinlat coslat radius st = Inr st1"
      and it: "iterate k R kernel' ratio lon sinlat coslat radius st1 = Inr st'"
      by (auto split: sum.splits)
    have "rediscretize_loop R kernel' ratio lon sinlat coslat radius st
          = rediscretize_loop R kernel' ratio lon sinlat coslat radius st1"
      using False s1 by (subst rediscretize_loop.simps) simp
    with Suc.IH[OF it] show ?thesis by simp
  qed
qed


lemma loop_no_split:
  assumes "divisions R ratio lon sinlat coslat radius (w, e, s, n, top', bottom) = (1, 1, 1)"
      and "scale_nodes R w e s n top' bottom = (lonc, sinlatc, coslatc, rc, scale)"
  shows "rediscretize_loop R kernel' ratio lon sinlat coslat radius
           (initial (w, e, s, n, top', bottom))
         = Some (Inr (kernel' lon sinlat coslat radius scale lonc sinlatc coslatc rc))"
proof -
  have q: "queue (initial (w, e, s, n, top', bottom)) = [] @ [(w, e, s, n, top', bottom)]"
    by (simp add: initial_def)
  have st: "step R kernel' ratio lon sinlat coslat radius (initial (w, e, s, n, top', bottom))
        = Inr \<lparr>queue = [], res = kernel' lon sinlat coslat radius scale lonc sinlatc coslatc rc\<rparr>"
    using step_evaluate[OF q assms, where kernel' = kernel'] by (simp add: initial_def)
  show ?thesis
    apply (subst rediscretize_loop.simps)
    apply (simp add: st)
    apply (simp add: initial_def)
    apply (subst rediscretize_loop.simps)
    apply simp
    done
qed

text \<open>The result array after the points \<open>ls\<close> have been completed with the sums \<open>r\<close>.\<close>

lemma points_loop_completed:
  assumes "\<forall>j\<in>set ls1. point j = Some (Inr (r j))"
  shows "points_loop point density result (ls1 @ ls2)
         = points_loop point density
             (foldl (\<lambda>res j. res[j := res ! j + density * r j]) result ls1) ls2"
  using assms by (induction ls1 arbitrary: result) simp_all

lemma foldl_update_length:
  "length (foldl (\<lambda>res j. res[j := res ! j + density * r j]) result ls) = length result"
  by (induction ls arbitrary: result) simp_all

lemma foldl_update_nth:
  assumes "distinct ls" "l < length result"
  shows "foldl (\<lambda>res j. res[j := res ! j + density * r j]) result ls ! l
         = (if l \<in> set ls then result ! l + density * r l else result ! l)"
  using assms
proof (induction ls arbitrary: result)
  case Nil
  then show ?case by simp
next
  case (Cons a ls)
  let ?res = "result[a := result ! a + density * r a]"
  from Cons.prems have d: "distinct ls" "a \<notin> set ls" and len: "l < length ?res" by simp_all
  note IH = Cons.IH[OF d(1) len]
  show ?case
  proof (cases "l = a")
    case True
    with IH d Cons.prems show ?thesis by simp
  next
    case False
    with IH show ?thesis by simp
  qed
qed

lemma points_loop_other:
  "points_loop point density result ls = Some (err, result') \<Longrightarrow>
     length result' = length result \<and> (\<forall>l. l \<notin> set ls \<longrightarrow> result' ! l = result ! l)"
proof (induction ls arbitrary: result)
  case Nil
  then show ?case by simp
next
  case (Cons a ls)
  show ?case
  proof (cases "point a")
    case None
    with Cons.prems show ?thesis by simp
  next
    case (Some o1)
    show ?thesis
    proof (cases o1)
      case (Inl e)
      with Some Cons.prems show ?thesis by simp
    next
      case (Inr x)
      with Some Cons.prems
      have "points_loop point density (result[a := result ! a + density * x]) ls
            = Some (err, result')" by simp
      from Cons.IH[OF this]
      have len: "length result' = length (result[a := result ! a + density * x])"
        and oth: "\<And>l. l \<notin> set ls \<Longrightarrow> result' ! l = (result[a := result ! a + density * x]) ! l"
        by simp_all
      have "result' ! l = result ! l" if "l \<notin> set (a # ls)" for l
        using oth[of l] that by simp
      with len show ?thesis by simp
    qed
  qed
qed

lemma upt_split_at:
  assumes "l < n"
  shows "[0..<n] = [0..<l] @ l # [Suc l..<n]"
proof -
  have "[0..<l + (n - l)] = [0..<l] @ [l..<l + (n - l)]"
    by (rule upt_add_eq_append) simp
  moreover have "l + (n - l) = n" using assms by simp
  moreover have "[l..<n] = l # [Suc l..<n]" using assms by (rule upt_conv_Cons)
  ultimately show ?thesis by simp
qed

text \<open>The state of the result array when the points before \<open>l\<close> have completed.\<close>

lemma points_loop_reaches:
  assumes "l < length result" "\<forall>j<l. point j = Some (Inr (r j))"
  shows "points_loop point density result [0..<length result]
         = points_loop point density
             (foldl (\<lambda>res j. res[j := res ! j + density * r j]) result [0..<l])
             (l # [Suc l..<length result])"
proof -
  have "\<forall>j\<in>set [0..<l]. point j = Some (Inr (r j))" using assms(2) by simp
  from points_loop_completed[OF this] upt_split_at[OF assms(1)] show ?thesis by simp
qed

section \<open>Bounds on the distance and the extents\<close>


lemma arctan_le_self: "0 \<le> x \<Longrightarrow> arctan x \<le> x"
proof -
  assume x: "0 \<le> x"
  have "0 - arctan 0 \<le> x - arctan x"
  proof (rule DERIV_nonneg_imp_nondecreasing[of 0 x "\<lambda>u. u - arctan u"])
    show "0 \<le> x" by fact
    fix u :: real
    assume "0 \<le> u" "u \<le> x"
    have "((\<lambda>u. u - arctan u) has_real_derivative (1 - inverse (1 + u\<^sup>2))) (at u)"
      by (auto intro!: derivative_eq_intros)
    moreover have "0 \<le> 1 - inverse (1 + u\<^sup>2)"
      by (simp add: inverse_le_1_iff)
    ultimately show "\<exists>y. ((\<lambda>u. u - arctan u) has_real_derivative y) (at u) \<and> 0 \<le> y" by blast
  qed
  then show ?thesis by simp
qed

lemma atan2_le_pi: "atan2 y x \<le> pi"
proof -
  have a: "arctan (y / x) < pi / 2" by (rule arctan_ubound)
  have b: "x < 0 \<Longrightarrow> 0 \<le> y \<Longrightarrow> arctan (y / x) \<le> 0"
    by (simp add: divide_nonneg_neg)
  have 1: "arctan (y / x) \<le> pi" using a pi_gt_zero by linarith
  have 2: "x < 0 \<Longrightarrow> 0 \<le> y \<Longrightarrow> arctan (y / x) + pi \<le> pi" using b by simp
  have 3: "arctan (y / x) - pi \<le> pi" using a pi_gt_zero by linarith
  have 4: "pi / 2 \<le> pi" "- (pi / 2) \<le> pi" "0 \<le> pi" using pi_gt_zero by linarith+
  show ?thesis
    unfolding atan2_def using 1 2 3 4 by (simp only: split: if_split) blast
qed

lemma atan2_pos: "0 < y \<Longrightarrow> 0 < atan2 y x"
proof -
  assume y: "0 < y"
  have a: "- (pi / 2) < arctan (y / x)" by (rule arctan_lbound)
  have 1: "0 < x \<Longrightarrow> 0 < arctan (y / x)" using y by simp
  have 2: "0 < arctan (y / x) + pi" using a pi_gt_zero by linarith
  have 3: "0 < pi / 2" by simp
  show ?thesis
    unfolding atan2_def using 1 2 3 y by (simp only: split: if_split) (metis less_le_not_le)
qed

lemma atan2_nonneg: "0 \<le> y \<Longrightarrow> 0 \<le> atan2 y x"
  using atan2_pos[of y x] by (cases "y = 0") (auto simp: atan2_def)

lemma atan2_le_ratio: "0 \<le> y \<Longrightarrow> 0 < x \<Longrightarrow> atan2 y x \<le> y / x"
  by (simp add: atan2_def arctan_le_self)

lemma atan2_sin_cos: "- (pi / 2) < x \<Longrightarrow> x < pi / 2 \<Longrightarrow> atan2 (sin x) (cos x) = x"
  using cos_gt_zero_pi[of x] arctan_tan[of x] by (simp add: atan2_def tan_def)

lemma one_minus_cos_le: "1 - cos x \<le> x\<^sup>2 / 2" for x :: real
proof -
  have "cos (2 * (x / 2)) = 1 - 2 * sin (x / 2) ^ 2" by (rule cos_double_sin)
  then have c: "1 - cos x = 2 * sin (x / 2) ^ 2" by simp
  have "\<bar>sin (x / 2)\<bar> \<le> \<bar>x / 2\<bar>" by (rule abs_sin_x_le_abs_x)
  then have "sin (x / 2) ^ 2 \<le> (x / 2) ^ 2" by (simp only: abs_le_square_iff)
  with c show ?thesis by (simp add: power2_eq_square)
qed

lemma dns_eq:
  "distance_n_size R w e s n top' bottom lon sinlat coslat radius =
     (sqrt_nan (radius ^ 2 + (top' + R) ^ 2
            - 2 * radius * (top' + R)
              * (sinlat * sin (d2r * 0.5 * (s + n))
                 + coslat * cos (d2r * 0.5 * (s + n)) * cos (lon - d2r * 0.5 * (w + e)))),
      R * atan2
            (sqrt ((cos (d2r * 0.5 * (s + n)) * sin (d2r * (e - w))) ^ 2
                   + (cos (d2r * 0.5 * (s + n)) * sin (d2r * 0.5 * (s + n))
                      - sin (d2r * 0.5 * (s + n)) * cos (d2r * 0.5 * (s + n))
                        * cos (d2r * (e - w))) ^ 2))
            ((sin (d2r * 0.5 * (s + n))) ^ 2
             + cos (d2r * (e - w)) * (cos (d2r * 0.5 * (s + n))) ^ 2),
      R * atan2 (sin (d2r * (n - s))) (cos (d2r * (n - s))),
      top' - bottom)"
proof -
  have 1: "cos (d2r * s) * sin (d2r * n) - sin (d2r * s) * cos (d2r * n) = sin (d2r * (n - s))"
    by (simp add: sin_diff right_diff_distrib)
  have 2: "sin (d2r * s) * sin (d2r * n) + cos (d2r * s) * cos (d2r * n) = cos (d2r * (n - s))"
    by (simp add: cos_diff right_diff_distrib)
  show ?thesis
    unfolding distance_n_size_def Let_def 1 2 by simp
qed

lemma dlon_term_bounds:
  fixes c s dl :: real
  assumes c: "c\<^sup>2 + s\<^sup>2 = 1" and dl: "0 \<le> dl" "dl \<le> 1"
  shows "sqrt ((c * sin dl) ^ 2 + (c * s - s * c * cos dl) ^ 2) \<le> dl"
    and "1 / 2 \<le> s ^ 2 + cos dl * c ^ 2"
proof -
  from c have c1: "c\<^sup>2 \<le> 1" and s1: "s\<^sup>2 \<le> 1"
    by (metis le_add_same_cancel1 zero_le_power2 le_add_same_cancel2)+
  have cs: "(c * s)\<^sup>2 \<le> 1"
    using c1 s1 by (simp add: power_mult_distrib mult_le_one)
  have m: "1 - cos dl \<le> dl\<^sup>2 / 2" by (rule one_minus_cos_le)
  have nn: "0 \<le> 1 - cos dl" by simp
  have t1: "(c * sin dl) ^ 2 \<le> (sin dl) ^ 2"
    using c1 by (simp add: power_mult_distrib mult_left_le_one_le)
  have t2: "(c * s - s * c * cos dl) ^ 2 = (c * s)\<^sup>2 * (1 - cos dl) ^ 2"
    by (simp add: power2_eq_square algebra_simps)
  have t3: "(c * s)\<^sup>2 * (1 - cos dl) ^ 2 \<le> (1 - cos dl) ^ 2"
    using cs by (simp add: mult_left_le_one_le)
  have t4: "(sin dl) ^ 2 + (1 - cos dl) ^ 2 = 2 * (1 - cos dl)"
    by (simp add: power2_eq_square algebra_simps sin_squared_eq)
  have "(c * sin dl) ^ 2 + (c * s - s * c * cos dl) ^ 2
        \<le> (sin dl) ^ 2 + (1 - cos dl) ^ 2"
    unfolding t2 using t1 t3 by (rule add_mono)
  also have "\<dots> = 2 * (1 - cos dl)" by (rule t4)
  also have "\<dots> \<le> dl\<^sup>2" using m by simp
  finally have "(c * sin dl) ^ 2 + (c * s - s * c * cos dl) ^ 2 \<le> dl\<^sup>2" .
  then have "sqrt ((c * sin dl) ^ 2 + (c * s - s * c * cos dl) ^ 2) \<le> sqrt (dl\<^sup>2)"
    by (simp only: real_sqrt_le_iff)
  with dl show "sqrt ((c * sin dl) ^ 2 + (c * s - s * c * cos dl) ^ 2) \<le> dl" by simp
  have "dl\<^sup>2 \<le> 1" using dl by (simp add: power_le_one)
  with m have half: "1 - cos dl \<le> 1 / 2" by linarith
  define q where "q = c\<^sup>2 * (1 - cos dl)"
  have "q \<le> 1 * (1 - cos dl)"
    unfolding q_def using c1 nn by (rule mult_right_mono)
  then have q: "q \<le> 1 / 2" using half by simp
  have "s ^ 2 + cos dl * c ^ 2 = 1 - q"
    unfolding q_def using c by (simp add: algebra_simps)
  with q show "1 / 2 \<le> s ^ 2 + cos dl * c ^ 2" by simp
qed

lemma dns_facts:
  assumes "distance_n_size R w e s n top' bottom lon sinlat coslat radius = (D, dlon, dlat, dr)"
  shows dns_dr: "dr = top' - bottom"
    and dns_distance_centre: "radius = 0 \<Longrightarrow> D = Some \<bar>top' + R\<bar>"
    and dns_distance_origin: "top' = - R \<Longrightarrow> D = Some \<bar>radius\<bar>"
    and dns_distance_above:
      "s + n = 0 \<Longrightarrow> w + e = 0 \<Longrightarrow> lon = 0 \<Longrightarrow> sinlat = 0 \<Longrightarrow> coslat = 1
        \<Longrightarrow> D = Some \<bar>radius - (top' + R)\<bar>"
    and dns_dlat: "0 \<le> n - s \<Longrightarrow> d2r * (n - s) < pi / 2 \<Longrightarrow> dlat = R * (d2r * (n - s))"
    and dns_dlat_pos: "0 < R \<Longrightarrow> 0 < n - s \<Longrightarrow> d2r * (n - s) < pi \<Longrightarrow> 0 < dlat"
    and dns_dlon_le: "0 \<le> R \<Longrightarrow> 0 \<le> e - w \<Longrightarrow> d2r * (e - w) \<le> 1
        \<Longrightarrow> dlon \<le> R * (2 * (d2r * (e - w)))"
    and dns_dlon_pos: "0 < R \<Longrightarrow> 0 < e - w \<Longrightarrow> d2r * (e - w) < pi
        \<Longrightarrow> - (pi / 2) < d2r * 0.5 * (s + n) \<Longrightarrow> d2r * 0.5 * (s + n) < pi / 2 \<Longrightarrow> 0 < dlon"
    and dns_dlon_le_pi: "0 \<le> R \<Longrightarrow> dlon \<le> R * pi"
    and dns_dlat_le_pi: "0 \<le> R \<Longrightarrow> dlat \<le> R * pi"
proof -
  let ?latt = "d2r * 0.5 * (s + n)"
  let ?dl = "d2r * (e - w)"
  let ?A = "(cos ?latt * sin ?dl) ^ 2 + (cos ?latt * sin ?latt - sin ?latt * cos ?latt * cos ?dl) ^ 2"
  let ?B = "(sin ?latt) ^ 2 + cos ?dl * (cos ?latt) ^ 2"
  from assms[unfolded dns_eq]
  have D: "D = sqrt_nan (radius ^ 2 + (top' + R) ^ 2
            - 2 * radius * (top' + R)
              * (sinlat * sin ?latt + coslat * cos ?latt * cos (lon - d2r * 0.5 * (w + e))))"
   and dlon: "dlon = R * atan2 (sqrt ?A) ?B"
   and dlat: "dlat = R * atan2 (sin (d2r * (n - s))) (cos (d2r * (n - s)))"
   and dr: "dr = top' - bottom"
    by simp_all
  show "dr = top' - bottom" by fact
  show "D = Some \<bar>top' + R\<bar>" if "radius = 0" using that D by (simp add: sqrt_nan_def)
  show "D = Some \<bar>radius\<bar>" if "top' = - R" using that D by (simp add: sqrt_nan_def)
  show "D = Some \<bar>radius - (top' + R)\<bar>"
    if "s + n = 0" "w + e = 0" "lon = 0" "sinlat = 0" "coslat = 1"
  proof -
    have "radius ^ 2 + (top' + R) ^ 2 - 2 * radius * (top' + R) = (radius - (top' + R)) ^ 2"
      by (simp add: power2_eq_square algebra_simps)
    with that D show ?thesis by (simp add: sqrt_nan_def)
  qed
  show "dlat = R * (d2r * (n - s))" if "0 \<le> n - s" "d2r * (n - s) < pi / 2"
  proof -
    have "0 \<le> d2r * (n - s)" using that d2r_pos by simp
    then have "- (pi / 2) < d2r * (n - s)" using pi_gt_zero by linarith
    from atan2_sin_cos[OF this that(2)] dlat show ?thesis by simp
  qed
  show "0 < dlat" if "0 < R" "0 < n - s" "d2r * (n - s) < pi"
  proof -
    have "0 < d2r * (n - s)" using that d2r_pos by simp
    then have "0 < sin (d2r * (n - s))" using that(3) by (rule sin_gt_zero)
    then have "0 < atan2 (sin (d2r * (n - s))) (cos (d2r * (n - s)))" by (rule atan2_pos)
    with that(1) dlat show ?thesis by simp
  qed
  have cs: "(cos ?latt)\<^sup>2 + (sin ?latt)\<^sup>2 = 1" by simp
  show "dlon \<le> R * (2 * ?dl)" if "0 \<le> R" "0 \<le> e - w" "?dl \<le> 1"
  proof -
    have dl0: "0 \<le> ?dl" using that d2r_pos by simp
    note b = dlon_term_bounds[OF cs dl0 that(3)]
    have Bpos: "0 < ?B" using b(2) by linarith
    have "atan2 (sqrt ?A) ?B \<le> sqrt ?A / ?B"
      by (rule atan2_le_ratio) (use Bpos in simp_all)
    also have "\<dots> \<le> ?dl / (1 / 2)"
      by (rule frac_le) (use b dl0 in simp_all)
    finally have "atan2 (sqrt ?A) ?B \<le> 2 * ?dl" by simp
    with that(1) have "R * atan2 (sqrt ?A) ?B \<le> R * (2 * ?dl)" by (rule mult_left_mono[rotated])
    with dlon show ?thesis by simp
  qed
  show "0 < dlon" if "0 < R" "0 < e - w" "?dl < pi" "- (pi / 2) < ?latt" "?latt < pi / 2"
  proof -
    have "0 < ?dl" using that d2r_pos by simp
    then have "0 < sin ?dl" using that(3) by (rule sin_gt_zero)
    moreover have "0 < cos ?latt" using that(4,5) by (rule cos_gt_zero_pi)
    ultimately have "0 < (cos ?latt * sin ?dl) ^ 2" by simp
    then have "0 < ?A" by (rule add_pos_nonneg) simp
    then have "0 < sqrt ?A" by simp
    then have "0 < atan2 (sqrt ?A) ?B" by (rule atan2_pos)
    with that(1) dlon show ?thesis by simp
  qed
  show "dlon \<le> R * pi" if "0 \<le> R"
    using dlon that atan2_le_pi[of "sqrt ?A" ?B] by (simp add: mult_left_mono)
  show "dlat \<le> R * pi" if "0 \<le> R"
    using dlat that atan2_le_pi[of "sin (d2r * (n - s))" "cos (d2r * (n - s))"]
    by (simp add: mult_left_mono)
qed

section \<open>Runs that keep splitting the last row\<close>



lemma length_butlast_children_corner: "length (butlast (children (corner t m) 2 2 2)) = 7"
  by (simp add: length_children)




section \<open>Two runs from the centre of the sphere\<close>












section \<open>The rows written by a split\<close>









section \<open>The errors of the engine and the sum added by the potential\<close>







section \<open>The adaptive path where nothing is split\<close>

text \<open>
  C4. Let the observation point \<open>l\<close> be one at which the original tesseroid is not split:
  its distance is not below \<^verbatim>\<open>ratio\<close> times any of the three extents. Then the inner loop
  for that point returns the value of \<^verbatim>\<open>kernelzz\<close> on the scaled nodes of the unsplit
  tesseroid, and whenever the points before \<open>l\<close> complete, every outcome of \<^verbatim>\<open>gzz\<close> has
  added exactly \<^verbatim>\<open>density\<close> times that value to the entry \<open>l\<close> of the result array.
\<close>

theorem gzz_no_split_is_direct:
  assumes "l < length result"
      and "distance_n_size R w e s n top' bottom (lons ! l) (sinlats ! l) (coslats ! l) (radii ! l)
           = (distance, dlon, dlat, dr)"
      and "\<not> closer distance (ratio * dlon)" "\<not> closer distance (ratio * dlat)"
          "\<not> closer distance (ratio * dr)"
      and "scale_nodes R w e s n top' bottom = (lonc, sinlatc, coslatc, rc, scale)"
      and "\<forall>j<l. \<exists>r. rediscretize_loop R kernelzz ratio (lons ! j) (sinlats ! j) (coslats ! j)
                        (radii ! j) (initial (w, e, s, n, top', bottom)) = Some (Inr r)"
  shows "rediscretize_loop R kernelzz ratio (lons ! l) (sinlats ! l) (coslats ! l) (radii ! l)
           (initial (w, e, s, n, top', bottom))
         = Some (Inr (kernelzz (lons ! l) (sinlats ! l) (coslats ! l) (radii ! l)
                        scale lonc sinlatc coslatc rc))
       \<and> (\<forall>err result'.
            gzz R (w, e, s, n, top', bottom) density ratio lons sinlats coslats radii result
              = Some (err, result')
            \<longrightarrow> result' ! l
                = result ! l
                  + density * kernelzz (lons ! l) (sinlats ! l) (coslats ! l) (radii ! l)
                                scale lonc sinlatc coslatc rc)"
proof -
  let ?t = "(w, e, s, n, top', bottom)"
  let ?point = "\<lambda>j. rediscretize_loop R kernelzz ratio (lons ! j) (sinlats ! j) (coslats ! j)
                     (radii ! j) (initial ?t)"
  let ?k = "kernelzz (lons ! l) (sinlats ! l) (coslats ! l) (radii ! l)
              scale lonc sinlatc coslatc rc"
  have d: "divisions R ratio (lons ! l) (sinlats ! l) (coslats ! l) (radii ! l) ?t = (1, 1, 1)"
    using assms(2-5) by (simp add: divisions_def)
  have pl: "?point l = Some (Inr ?k)"
    by (rule loop_no_split[OF d assms(6)])
  define r where "r j = (case ?point j of Some (Inr x) \<Rightarrow> x | _ \<Rightarrow> 0)" for j
  have before: "\<forall>j<l. ?point j = Some (Inr (r j))"
    using assms(7) by (auto simp: r_def)
  let ?res1 = "foldl (\<lambda>res j. res[j := res ! j + density * r j]) result [0..<l]"
  have len1: "length ?res1 = length result" by (rule foldl_update_length)
  have at1: "?res1 ! l = result ! l"
    using foldl_update_nth[of "[0..<l]" l result density r] assms(1) by simp
  have "result' ! l = result ! l + density * ?k"
    if out: "gzz R ?t density ratio lons sinlats coslats radii result = Some (err, result')"
    for err result'
  proof -
    have "points_loop ?point density result [0..<length result] = Some (err, result')"
      using out by (simp add: gzz_def with_rediscretization_def)
    then have "points_loop ?point density ?res1 (l # [Suc l..<length result])
               = Some (err, result')"
      using points_loop_reaches[OF assms(1) before] by simp
    then have "points_loop ?point density (?res1[l := ?res1 ! l + density * ?k])
                 [Suc l..<length result] = Some (err, result')"
      using pl by simp
    from points_loop_other[OF this]
    have "result' ! l = (?res1[l := ?res1 ! l + density * ?k]) ! l" by simp
    then show ?thesis using assms(1) len1 at1 by simp
  qed
  with pl show ?thesis by blast
qed

theorem gzz_no_split_is_direct_witness:
  "\<exists>k. rediscretize_loop 6378137 kernelzz (1 / 1000) 0 0 1 6478137
          (initial (- (1 / 2), 1 / 2, - (1 / 2), 1 / 2, 0, - 10000)) = Some (Inr k)
      \<and> gzz 6378137 (- (1 / 2), 1 / 2, - (1 / 2), 1 / 2, 0, - 10000) 1 (1 / 1000)
           [0] [0] [1] [6478137] [0] = Some (None, [k])"
proof -
  let ?t = "(- (1 / 2), 1 / 2, - (1 / 2), 1 / 2, 0, - 10000) :: tesseroid"
  obtain D dlon dlat dr where
    dns: "distance_n_size 6378137 (- (1 / 2)) (1 / 2) (- (1 / 2)) (1 / 2) 0 (- 10000)
            ([0] ! 0) ([0] ! 0) ([1] ! 0) ([6478137] ! 0) = (D, dlon, dlat, dr)"
    by (cases "distance_n_size 6378137 (- (1 / 2)) (1 / 2) (- (1 / 2)) (1 / 2) 0 (- 10000)
            ([0] ! 0) ([0] ! 0) ([1] ! 0) ([6478137] ! 0)") auto
  obtain lonc sinlatc coslatc rc scale where
    sn: "scale_nodes 6378137 (- (1 / 2)) (1 / 2) (- (1 / 2)) (1 / 2) 0 (- 10000)
         = (lonc, sinlatc, coslatc, rc, scale)"
    by (cases "scale_nodes 6378137 (- (1 / 2)) (1 / 2) (- (1 / 2)) (1 / 2) 0 (- 10000)") auto
  define k where "k = kernelzz ([0] ! 0) ([0] ! 0) ([1] ! 0) ([6478137] ! 0)
                        scale lonc sinlatc coslatc rc"
  have D: "D = Some 100000" using dns_distance_above[OF dns] by simp
  have dr: "dr = 10000" using dns_dr[OF dns] by simp
  have b: "6378137 * pi \<le> (100000000 :: real)" using pi_less_4 by simp
  have "dlon \<le> 6378137 * pi" using dns_dlon_le_pi[OF dns] by simp
  with b have dlon: "\<not> closer D (1 / 1000 * dlon)" unfolding D by (simp add: closer_def)
  have "dlat \<le> 6378137 * pi" using dns_dlat_le_pi[OF dns] by simp
  with b have dlat: "\<not> closer D (1 / 1000 * dlat)" unfolding D by (simp add: closer_def)
  have drr: "\<not> closer D (1 / 1000 * dr)" unfolding D dr by (simp add: closer_def)
  have l: "0 < length [0 :: real]" by simp
  have nobefore: "\<forall>j<0. \<exists>r. rediscretize_loop 6378137 kernelzz (1 / 1000) ([0] ! j) ([0] ! j)
                        ([1] ! j) ([6478137] ! j) (initial ?t) = Some (Inr r)" by simp
  from gzz_no_split_is_direct[OF l dns dlon dlat drr sn nobefore, of 1]
  have p: "rediscretize_loop 6378137 kernelzz (1 / 1000) 0 0 1 6478137 (initial ?t)
           = Some (Inr k)"
    by (simp add: k_def)
  then have "gzz 6378137 ?t 1 (1 / 1000) [0] [0] [1] [6478137] [0] = Some (None, [k])"
    by (simp add: gzz_def with_rediscretization_def)
  with p show ?thesis by blast
qed

section \<open>Overflow and the result array\<close>




section \<open>The ordering of the bounds on the queue\<close>



section \<open>One iteration of the loop\<close>




section \<open>The capacity of the queue\<close>

text \<open>
  The guard of the splitting branch compares \<^verbatim>\<open>queue_size + nlon + nlat + nr\<close> with
  \<^verbatim>\<open>queue_max\<close>, while the branch writes \<^verbatim>\<open>nlon * nlat * nr\<close> rows. A split along all three
  axes passes the guard with 9993 or 9994 rows below the popped one and then writes eight
  rows, the last one or two of them outside the array.
\<close>

lemma step_writes_outside:
  assumes "queue st = rest @ [t]"
      and "divisions R ratio lon sinlat coslat radius t = (2, 2, 2)"
      and "length rest = 9993 \<or> length rest = 9994"
  shows "\<exists>st'. step R kernel' ratio lon sinlat coslat radius st = Inr st'
              \<and> queue_max < length (queue st')"
proof -
  have "step R kernel' ratio lon sinlat coslat radius st
        = Inr \<lparr>queue = rest @ children t 2 2 2, res = res st\<rparr>"
    by (rule step_split[OF assms(1,2)]) (use assms(3) in \<open>auto simp: queue_max_def\<close>)
  moreover have "queue_max < length (rest @ children t 2 2 2)"
    using assms(3) by (auto simp: length_children queue_max_def)
  ultimately show ?thesis by simp
qed


section \<open>Bounds that violate the ordering\<close>










section \<open>Mirroring the longitudes\<close>






end
